theory Spec2Isabelle
  imports Main "HOL-Library.Char_ord" "HOL-Library.List_Lexorder" "HOL-Library.Product_Lexorder"
begin

section \<open>Values, orders and the state of the picker\<close>

text \<open>
  The service (\<^verbatim>\<open>src/app/service.py\<close>) works on what the JSON layer hands it: an order is a
  Python dict from field names to values, the backlog \<^verbatim>\<open>self.orders\<close> is a list of such
  dicts and \<^verbatim>\<open>self.inventory\<close> is a dict from item names to integer quantities.

  A field value is modelled as an integer or a string. Floats, booleans, null and nested
  values are outside the model. Python integers are unbounded, so they are \<open>int\<close>.
\<close>

datatype pyval = PInt int | PStr string

type_synonym order_dict = "string \<rightharpoonup> pyval"

datatype error = ValueError string | KeyError pyval | TypeError | IndexError

record picker =
  orders :: "order_dict list"
  inventory :: "pyval \<rightharpoonup> int"

text \<open>
  A total order on values, needed by the library's sorting function. On two integers and on
  two strings it is Python's order (strings compare lexicographically by character code).
  Between an integer and a string Python has no order; the order below puts integers first,
  and \<open>sorted_py\<close> never relies on that: it raises \<open>TypeError\<close> before.
\<close>

instantiation pyval :: linorder
begin

fun less_eq_pyval :: "pyval \<Rightarrow> pyval \<Rightarrow> bool" where
  "less_eq_pyval (PInt a) (PInt b) = (a \<le> b)"
| "less_eq_pyval (PInt a) (PStr t) = True"
| "less_eq_pyval (PStr s) (PInt b) = False"
| "less_eq_pyval (PStr s) (PStr t) = (s \<le> t)"

definition less_pyval :: "pyval \<Rightarrow> pyval \<Rightarrow> bool" where
  "less_pyval x y = (x \<le> y \<and> \<not> y \<le> x)"

instance
proof
  fix x y z :: pyval
  show "(x < y) = (x \<le> y \<and> \<not> y \<le> x)"
    by (simp add: less_pyval_def)
  show "x \<le> x"
    by (cases x) simp_all
  show "x \<le> y \<Longrightarrow> y \<le> z \<Longrightarrow> x \<le> z"
    by (cases x; cases y; cases z) auto
  show "x \<le> y \<Longrightarrow> y \<le> x \<Longrightarrow> x = y"
    by (cases x; cases y) auto
  show "x \<le> y \<or> y \<le> x"
    by (cases x; cases y) auto
qed

end

section \<open>Python's primitives\<close>

text \<open>\<^verbatim>\<open>d[k]\<close> on an order: the value, or \<open>KeyError\<close>.\<close>

definition getitem :: "order_dict \<Rightarrow> string \<Rightarrow> error + pyval" where
  "getitem d k = (case d k of None \<Rightarrow> Inl (KeyError (PStr k)) | Some v \<Rightarrow> Inr v)"

text \<open>\<^verbatim>\<open>a >= b\<close> and \<^verbatim>\<open>a < b\<close>: defined on two integers and on two strings, \<open>TypeError\<close> otherwise.\<close>

fun py_ge :: "pyval \<Rightarrow> pyval \<Rightarrow> error + bool" where
  "py_ge (PInt a) (PInt b) = Inr (b \<le> a)"
| "py_ge (PStr s) (PStr t) = Inr (t \<le> s)"
| "py_ge (PInt a) (PStr t) = Inl TypeError"
| "py_ge (PStr s) (PInt b) = Inl TypeError"

fun py_lt :: "pyval \<Rightarrow> pyval \<Rightarrow> error + bool" where
  "py_lt (PInt a) (PInt b) = Inr (a < b)"
| "py_lt (PStr s) (PStr t) = Inr (s < t)"
| "py_lt (PInt a) (PStr t) = Inl TypeError"
| "py_lt (PStr s) (PInt b) = Inl TypeError"

text \<open>
  \<^verbatim>\<open>(p1, t1) < (p2, t2)\<close> on the sort keys: Python looks for the first component where the
  tuples differ (by \<^verbatim>\<open>==\<close>, which never raises) and compares there.
\<close>

definition tuple_lt :: "int \<times> pyval \<Rightarrow> int \<times> pyval \<Rightarrow> error + bool" where
  "tuple_lt k1 k2 =
     (if fst k1 \<noteq> fst k2 then Inr (fst k1 < fst k2)
      else if snd k1 \<noteq> snd k2 then py_lt (snd k1) (snd k2)
      else Inr False)"

text \<open>\<^verbatim>\<open>sep.join(xs)\<close>.\<close>

fun join :: "string \<Rightarrow> string list \<Rightarrow> string" where
  "join sep [] = []"
| "join sep [x] = x"
| "join sep (x # y # ys) = x @ sep @ join sep (y # ys)"

section \<open>submit\_order\<close>

text \<open>
  \<^verbatim>\<open>
  def submit_order(self,order):
      required_field = ['item','quantity','category','timestamp']
      missing = [f for f in required_field if f not in order]
      if missing:
          raise ValueError(f"Missing field:{','.join(missing)}")
      self.orders.append(order)
  \<close>
  Every operation returns its outcome together with the state it leaves behind, so that
  what an exception leaves of the state is part of the model.
\<close>

definition required_field :: "string list" where
  "required_field = [''item'', ''quantity'', ''category'', ''timestamp'']"

definition submit_order :: "picker \<Rightarrow> order_dict \<Rightarrow> (error + unit) \<times> picker" where
  "submit_order self order =
     (let missing = filter (\<lambda>f. order f = None) required_field in
      if missing \<noteq> [] then (Inl (ValueError (''Missing field:'' @ join '','' missing)), self)
      else (Inr (), self\<lparr>orders := orders self @ [order]\<rparr>))"

section \<open>next\_order\<close>

text \<open>
  \<^verbatim>\<open>
  CATEGORY_PRIORITY = {'perishable':0,'non_perishable':1}

  def next_order(self):
      available_order = [o for o in self.orders
                         if self.inventory.get(o['item'],0) >= o['quantity'] ]
      sorted_order = sorted(available_order,
          key=lambda o : (self.CATEGORY_PRIORITY.get(o['category'],0) , o['timestamp']))
      next_order = sorted_order[0]
      self.inventory[next_order['item']] -= next_order['quantity']
      return next_order
  \<close>
\<close>

definition CATEGORY_PRIORITY :: "pyval \<rightharpoonup> int" where
  "CATEGORY_PRIORITY = [PStr ''perishable'' \<mapsto> 0, PStr ''non_perishable'' \<mapsto> 1]"

text \<open>\<^verbatim>\<open>d.get(k, 0)\<close> on a dict of integers.\<close>

definition get0 :: "('k \<rightharpoonup> int) \<Rightarrow> 'k \<Rightarrow> int" where
  "get0 d k = (case d k of None \<Rightarrow> 0 | Some v \<Rightarrow> v)"

text \<open>The condition of the comprehension, for one order.\<close>

definition available :: "(pyval \<rightharpoonup> int) \<Rightarrow> order_dict \<Rightarrow> error + bool" where
  "available ivt od =
     (case getitem od ''item'' of Inl e \<Rightarrow> Inl e | Inr it \<Rightarrow>
      (case getitem od ''quantity'' of Inl e \<Rightarrow> Inl e | Inr q \<Rightarrow>
         py_ge (PInt (get0 ivt it)) q))"

text \<open>The comprehension: it stops at the first order whose condition raises.\<close>

fun available_order :: "(pyval \<rightharpoonup> int) \<Rightarrow> order_dict list \<Rightarrow> error + order_dict list" where
  "available_order ivt [] = Inr []"
| "available_order ivt (od # os) =
     (case available ivt od of Inl e \<Rightarrow> Inl e | Inr b \<Rightarrow>
      (case available_order ivt os of Inl e \<Rightarrow> Inl e | Inr rest \<Rightarrow>
         Inr (if b then od # rest else rest)))"

text \<open>The key function of the sort; the tuple is built left to right.\<close>

definition order_key :: "order_dict \<Rightarrow> error + int \<times> pyval" where
  "order_key od =
     (case getitem od ''category'' of Inl e \<Rightarrow> Inl e | Inr c \<Rightarrow>
      (case getitem od ''timestamp'' of Inl e \<Rightarrow> Inl e | Inr t \<Rightarrow>
         Inr (get0 CATEGORY_PRIORITY c, t)))"

fun keys_of :: "order_dict list \<Rightarrow> error + (int \<times> pyval) list" where
  "keys_of [] = Inr []"
| "keys_of (x # xs) =
     (case order_key x of Inl e \<Rightarrow> Inl e | Inr k \<Rightarrow>
      (case keys_of xs of Inl e \<Rightarrow> Inl e | Inr ks \<Rightarrow> Inr (k # ks)))"

text \<open>
  \<^verbatim>\<open>sorted(xs, key=...)\<close>. Python computes the key of every element first, in list order,
  then sorts the keys with \<^verbatim>\<open><\<close>; the sort is stable. It is modelled by its contract rather
  than by the steps of the algorithm:
  \<^item> when two keys of the list cannot be compared (equal priority, one timestamp an integer
    and the other a string), the sort raises \<open>TypeError\<close>: a comparison sort that never
    compared across the two kinds could not know how to order them;
  \<^item> otherwise every comparison agrees with the total order on keys, and the result is the
    stable sorted arrangement, which is unique: the library's \<open>sort_key\<close> computes it.
\<close>

definition sorted_py :: "order_dict list \<Rightarrow> error + order_dict list" where
  "sorted_py xs =
     (case keys_of xs of Inl e \<Rightarrow> Inl e | Inr ks \<Rightarrow>
        if \<exists>k1 \<in> set ks. \<exists>k2 \<in> set ks. tuple_lt k1 k2 = Inl TypeError then Inl TypeError
        else Inr (map snd (sort_key fst (zip ks xs))))"

definition next_order :: "picker \<Rightarrow> (error + order_dict) \<times> picker" where
  "next_order self =
     (case available_order (inventory self) (orders self) of Inl e \<Rightarrow> (Inl e, self)
      | Inr av \<Rightarrow>
     (case sorted_py av of Inl e \<Rightarrow> (Inl e, self)
      | Inr sorted_order \<Rightarrow>
     (case sorted_order of [] \<Rightarrow> (Inl IndexError, self)
      | nxt # rest \<Rightarrow>
     (case getitem nxt ''item'' of Inl e \<Rightarrow> (Inl e, self)
      | Inr it \<Rightarrow>
     (case inventory self it of None \<Rightarrow> (Inl (KeyError it), self)
      | Some s \<Rightarrow>
     (case getitem nxt ''quantity'' of Inl e \<Rightarrow> (Inl e, self)
      | Inr q \<Rightarrow>
     (case q of PStr t \<Rightarrow> (Inl TypeError, self)
      | PInt n \<Rightarrow> (Inr nxt, self\<lparr>inventory := (inventory self)(it \<mapsto> s - n)\<rparr>))))))))"

text \<open>\<open>n\<close> consecutive calls of \<open>next_order\<close>, with the outcome of each.\<close>

fun next_orders :: "nat \<Rightarrow> picker \<Rightarrow> (error + order_dict) list \<times> picker" where
  "next_orders 0 self = ([], self)"
| "next_orders (Suc n) self =
     (case next_order self of (r, self1) \<Rightarrow>
      (case next_orders n self1 of (rs, self2) \<Rightarrow> (r # rs, self2)))"

section \<open>The specification's reading of eligibility\<close>

text \<open>
  The specification's words for step 1: an order is eligible when its item has inventory
  quantity at least the order's quantity, an item that is not a key of the inventory counting
  as quantity 0.
\<close>

definition spec_eligible :: "(pyval \<rightharpoonup> int) \<Rightarrow> order_dict \<Rightarrow> bool" where
  "spec_eligible ivt od =
     (case od ''item'' of None \<Rightarrow> False | Some it \<Rightarrow>
      (case od ''quantity'' of None \<Rightarrow> False | Some (PStr t) \<Rightarrow> False
       | Some (PInt q) \<Rightarrow> (case ivt it of None \<Rightarrow> q \<le> 0 | Some s \<Rightarrow> q \<le> s)))"

section \<open>Example states\<close>

text \<open>An order as a client posts it, with all four fields.\<close>

definition mk_order :: "string \<Rightarrow> int \<Rightarrow> string \<Rightarrow> string \<Rightarrow> order_dict" where
  "mk_order i q c t =
     [''item'' \<mapsto> PStr i, ''quantity'' \<mapsto> PInt q, ''category'' \<mapsto> PStr c, ''timestamp'' \<mapsto> PStr t]"

text \<open>The inventory the application starts with (\<^verbatim>\<open>src/app/routes.py\<close>).\<close>

definition initial_inventory :: "pyval \<rightharpoonup> int" where
  "initial_inventory = [PStr ''apple'' \<mapsto> 29, PStr ''bread'' \<mapsto> 12, PStr ''Milk'' \<mapsto> 5]"

text \<open>
  The specification's first scenario: five apples in stock, a perishable order for three
  submitted first with the later timestamp, then a non-perishable order for two with the
  earlier timestamp; and the state after the perishable order has been picked.
\<close>

definition perishable_late :: order_dict where
  "perishable_late = mk_order ''apple'' 3 ''perishable'' ''T1''"

definition non_perishable_early :: order_dict where
  "non_perishable_early = mk_order ''apple'' 2 ''non_perishable'' ''T0''"

definition scenario :: picker where
  "scenario = \<lparr>orders = [perishable_late, non_perishable_early],
               inventory = [PStr ''apple'' \<mapsto> 5]\<rparr>"

definition scenario_picked :: picker where
  "scenario_picked = \<lparr>orders = [perishable_late, non_perishable_early],
                      inventory = [PStr ''apple'' \<mapsto> 2]\<rparr>"

text \<open>
  Three perishable orders that are all in stock: one with a later timestamp, then two with
  the same earlier timestamp; and the state after the first of the two has been picked.
\<close>

definition late_order :: order_dict where
  "late_order = mk_order ''Milk'' 1 ''perishable'' ''T1''"

definition tie_first :: order_dict where
  "tie_first = mk_order ''apple'' 1 ''perishable'' ''T0''"

definition tie_second :: order_dict where
  "tie_second = mk_order ''bread'' 1 ''perishable'' ''T0''"

definition ties :: picker where
  "ties = \<lparr>orders = [late_order, tie_first, tie_second], inventory = initial_inventory\<rparr>"

definition ties_picked :: picker where
  "ties_picked = \<lparr>orders = [late_order, tie_first, tie_second],
                  inventory = initial_inventory(PStr ''apple'' \<mapsto> 28)\<rparr>"

text \<open>The orders of the scenario against the full initial stock of 29 apples.\<close>

definition stocked :: picker where
  "stocked = \<lparr>orders = [perishable_late, non_perishable_early], inventory = initial_inventory\<rparr>"

text \<open>
  An order with a negative quantity, which \<open>submit_order\<close> accepts, ahead of a perishable
  order for three apples, with no apples in stock.
\<close>

definition restock_order :: order_dict where
  "restock_order = mk_order ''apple'' (- 5) ''non_perishable'' ''T0''"

definition waiting_order :: order_dict where
  "waiting_order = mk_order ''apple'' 3 ''perishable'' ''T1''"

definition restock :: picker where
  "restock = \<lparr>orders = [restock_order, waiting_order], inventory = [PStr ''apple'' \<mapsto> 0]\<rparr>"







section \<open>Auxiliary facts\<close>

lemma py_lt_cases: "py_lt a b = Inl TypeError \<or> py_lt a b = Inr (a < b)"
  by (cases a; cases b) (auto simp: less_pyval_def)

lemma tuple_lt_cases: "tuple_lt k1 k2 = Inl TypeError \<or> tuple_lt k1 k2 = Inr (k1 < k2)"
  using py_lt_cases [of "snd k1" "snd k2"]
  by (cases k1; cases k2) (auto simp: tuple_lt_def)

lemma available_order_Inr:
  "available_order ivt os = Inr av \<Longrightarrow>
     av = filter (\<lambda>od. available ivt od = Inr True) os \<and> (\<forall>od \<in> set os. \<exists>b. available ivt od = Inr b)"
  by (induction os arbitrary: av) (auto split: sum.splits if_splits)

lemma available_order_total:
  "\<forall>od \<in> set os. \<exists>b. available ivt od = Inr b \<Longrightarrow>
     available_order ivt os = Inr (filter (\<lambda>od. available ivt od = Inr True) os)"
  by (induction os) (auto split: sum.splits)

lemma keys_of_Inr:
  "keys_of xs = Inr ks \<Longrightarrow> ks = map (\<lambda>x. projr (order_key x)) xs \<and> (\<forall>x \<in> set xs. \<exists>k. order_key x = Inr k)"
  by (induction xs arbitrary: ks) (auto split: sum.splits)

lemma keys_of_total:
  "\<forall>x \<in> set xs. \<exists>k. order_key x = Inr k \<Longrightarrow> keys_of xs = Inr (map (\<lambda>x. projr (order_key x)) xs)"
  by (induction xs) (auto split: sum.splits)

lemma sort_key_decorated_aux:
  "sort_key fst (map (\<lambda>y. (f y, y)) xs) = map (\<lambda>y. (f y, y)) (sort_key f xs)"
proof (induction xs)
  case Nil
  show ?case by simp
next
  case (Cons x xs)
  have "insort_key fst (f x, x) (map (\<lambda>y. (f y, y)) ys) = map (\<lambda>y. (f y, y)) (insort_key f x ys)" for ys
    by (induction ys) auto
  with Cons show ?case by simp
qed

lemma sort_key_decorated:
  "map snd (sort_key fst (zip (map f xs) xs)) = sort_key f xs"
proof -
  have "zip (map f xs) xs = map (\<lambda>y. (f y, y)) xs"
    by (induction xs) auto
  then show ?thesis
    by (simp add: sort_key_decorated_aux comp_def)
qed

lemma hd_insort_key:
  "hd (insort_key f x ys) = (if ys = [] \<or> f x \<le> f (hd ys) then x else hd ys)"
  by (cases ys) auto

lemma hd_sort_key_split:
  "xs \<noteq> [] \<Longrightarrow> \<exists>pre post. xs = pre @ hd (sort_key f xs) # post
      \<and> (\<forall>y \<in> set pre. f (hd (sort_key f xs)) < f y)
      \<and> (\<forall>y \<in> set post. f (hd (sort_key f xs)) \<le> f y)"
proof (induction xs)
  case Nil
  then show ?case by simp
next
  case (Cons x xs)
  show ?case
  proof (cases "xs = []")
    case True
    then show ?thesis
      by (intro exI [of _ "[]"]) simp
  next
    case False
    let ?m = "hd (sort_key f xs)"
    from Cons.IH [OF False] obtain pre post where
      xs: "xs = pre @ ?m # post" and
      pre: "\<forall>y \<in> set pre. f ?m < f y" and
      post: "\<forall>y \<in> set post. f ?m \<le> f y"
      by blast
    have ne: "sort_key f xs \<noteq> []"
      using False by (metis length_0_conv length_sort)
    have all: "\<forall>y \<in> set xs. f ?m \<le> f y"
      using xs pre post by (metis UnE less_imp_le order_refl set_ConsD set_append)
    show ?thesis
    proof (cases "f x \<le> f ?m")
      case True
      then have "hd (sort_key f (x # xs)) = x"
        by (simp add: hd_insort_key)
      moreover have "\<forall>y \<in> set xs. f x \<le> f y"
        using all True by (meson order_trans)
      ultimately show ?thesis
        by (intro exI [of _ "[]"] exI [of _ xs]) simp
    next
      case False
      then have h: "hd (sort_key f (x # xs)) = ?m"
        using ne by (simp add: hd_insort_key)
      have "x # xs = (x # pre) @ ?m # post"
        using xs by simp
      moreover have "\<forall>y \<in> set (x # pre). f ?m < f y"
        using pre False by auto
      ultimately show ?thesis
        unfolding h using post by blast
    qed
  qed
qed

lemma hd_sort_key_unsplit:
  "(\<forall>y \<in> set pre. f x < f y) \<Longrightarrow> (\<forall>y \<in> set post. f x \<le> f y) \<Longrightarrow>
     hd (sort_key f (pre @ x # post)) = x"
proof (induction pre)
  case Nil
  show ?case
  proof (cases "post = []")
    case True
    then show ?thesis by simp
  next
    case False
    then have "hd (sort_key f post) \<in> set post"
      by (metis hd_in_set length_0_conv length_sort set_sort)
    with Nil show ?thesis
      by (simp add: hd_insort_key)
  qed
next
  case (Cons a pre)
  then have "hd (sort_key f (pre @ x # post)) = x"
    by simp
  moreover have "sort_key f (pre @ x # post) \<noteq> []"
    by (metis append_is_Nil_conv length_0_conv length_sort list.distinct(1))
  moreover have "\<not> f a \<le> f x"
    using Cons.prems(1) by auto
  ultimately show ?case
    by (simp add: hd_insort_key)
qed


lemma filter_eq_append_ConsD:
  "filter P xs = ys @ z # zs \<Longrightarrow>
     \<exists>us vs. xs = us @ z # vs \<and> filter P us = ys \<and> P z \<and> filter P vs = zs"
proof (induction xs arbitrary: ys)
  case Nil
  then show ?case by simp
next
  case (Cons x xs)
  show ?case
  proof (cases "P x")
    case False
    with Cons.prems have "filter P xs = ys @ z # zs" by simp
    from Cons.IH [OF this] obtain us vs where
      "xs = us @ z # vs" "filter P us = ys" "P z" "filter P vs = zs" by blast
    with False have "x # xs = (x # us) @ z # vs \<and> filter P (x # us) = ys \<and> P z \<and> filter P vs = zs"
      by simp
    then show ?thesis by blast
  next
    case True
    show ?thesis
    proof (cases ys)
      case Nil
      with True Cons.prems have "x # xs = [] @ z # xs \<and> filter P [] = ys \<and> P z \<and> filter P xs = zs"
        by simp
      then show ?thesis by blast
    next
      case (Cons y ys')
      with True Cons.prems have x: "x = y" and "filter P xs = ys' @ z # zs" by simp_all
      from Cons.IH [OF this(2)] obtain us vs where
        "xs = us @ z # vs" "filter P us = ys'" "P z" "filter P vs = zs" by blast
      with True x Cons have "x # xs = (x # us) @ z # vs \<and> filter P (x # us) = ys \<and> P z \<and> filter P vs = zs"
        by simp
      then show ?thesis by blast
    qed
  qed
qed

lemma sorted_py_Inr:
  assumes "sorted_py xs = Inr ys"
  shows "ys = sort_key (\<lambda>x. projr (order_key x)) xs"
    and "\<forall>x \<in> set xs. \<exists>k. order_key x = Inr k"
    and "\<forall>x \<in> set xs. \<forall>y \<in> set xs.
           tuple_lt (projr (order_key x)) (projr (order_key y)) \<noteq> Inl TypeError"
proof -
  from assms obtain ks where ks: "keys_of xs = Inr ks"
    by (auto simp: sorted_py_def split: sum.splits)
  from keys_of_Inr [OF ks] have ks_eq: "ks = map (\<lambda>x. projr (order_key x)) xs"
    and tot: "\<forall>x \<in> set xs. \<exists>k. order_key x = Inr k" by simp_all
  from assms ks have ok: "\<not> (\<exists>k1 \<in> set ks. \<exists>k2 \<in> set ks. tuple_lt k1 k2 = Inl TypeError)"
    and ys: "ys = map snd (sort_key fst (zip ks xs))"
    by (auto simp: sorted_py_def split: if_splits)
  show "ys = sort_key (\<lambda>x. projr (order_key x)) xs"
    using ys by (simp add: ks_eq sort_key_decorated)
  show "\<forall>x \<in> set xs. \<exists>k. order_key x = Inr k" by (rule tot)
  show "\<forall>x \<in> set xs. \<forall>y \<in> set xs.
           tuple_lt (projr (order_key x)) (projr (order_key y)) \<noteq> Inl TypeError"
    using ok by (auto simp: ks_eq)
qed

lemma sorted_py_total:
  assumes "\<forall>x \<in> set xs. \<exists>k. order_key x = Inr k"
    and "\<forall>x \<in> set xs. \<forall>y \<in> set xs.
           tuple_lt (projr (order_key x)) (projr (order_key y)) \<noteq> Inl TypeError"
  shows "sorted_py xs = Inr (sort_key (\<lambda>x. projr (order_key x)) xs)"
proof -
  have ks: "keys_of xs = Inr (map (\<lambda>x. projr (order_key x)) xs)"
    using assms(1) by (rule keys_of_total)
  have "\<not> (\<exists>k1 \<in> set (map (\<lambda>x. projr (order_key x)) xs).
            \<exists>k2 \<in> set (map (\<lambda>x. projr (order_key x)) xs). tuple_lt k1 k2 = Inl TypeError)"
    using assms(2) by auto
  then show ?thesis
    unfolding sorted_py_def ks by (simp add: sort_key_decorated)
qed

lemma next_order_Inr_iff:
  "next_order self = (Inr nxt, self') \<longleftrightarrow>
     (\<exists>av rest it s n. available_order (inventory self) (orders self) = Inr av
        \<and> sorted_py av = Inr (nxt # rest)
        \<and> nxt ''item'' = Some it \<and> inventory self it = Some s
        \<and> nxt ''quantity'' = Some (PInt n)
        \<and> self' = self\<lparr>inventory := (inventory self)(it \<mapsto> s - n)\<rparr>)"
  by (auto simp: next_order_def getitem_def split: sum.splits list.splits option.splits pyval.splits)

lemma next_order_state:
  "next_order self = (r, self') \<Longrightarrow> orders self' = orders self \<and> (\<forall>e. r = Inl e \<longrightarrow> self' = self)"
  by (auto simp: next_order_def split: sum.splits list.splits option.splits pyval.splits)

lemma next_order_wf:
  assumes "next_order self = (Inr nxt, self')"
  shows "\<forall>od \<in> set (orders self). \<exists>b. available (inventory self) od = Inr b"
    and "\<forall>B \<in> set (orders self). available (inventory self) B = Inr True \<longrightarrow> (\<exists>k. order_key B = Inr k)"
    and "\<forall>A \<in> set (orders self). \<forall>B \<in> set (orders self).
           available (inventory self) A = Inr True \<longrightarrow> available (inventory self) B = Inr True \<longrightarrow>
           tuple_lt (projr (order_key A)) (projr (order_key B)) \<noteq> Inl TypeError"
proof -
  from assms obtain av rest where
    av: "available_order (inventory self) (orders self) = Inr av" and
    so: "sorted_py av = Inr (nxt # rest)"
    unfolding next_order_Inr_iff by blast
  from available_order_Inr [OF av] have
    av_eq: "av = filter (\<lambda>od. available (inventory self) od = Inr True) (orders self)" and
    tot: "\<forall>od \<in> set (orders self). \<exists>b. available (inventory self) od = Inr b"
    by simp_all
  show "\<forall>od \<in> set (orders self). \<exists>b. available (inventory self) od = Inr b"
    by (rule tot)
  show "\<forall>B \<in> set (orders self). available (inventory self) B = Inr True \<longrightarrow> (\<exists>k. order_key B = Inr k)"
    using sorted_py_Inr(2) [OF so] by (simp add: av_eq)
  show "\<forall>A \<in> set (orders self). \<forall>B \<in> set (orders self).
           available (inventory self) A = Inr True \<longrightarrow> available (inventory self) B = Inr True \<longrightarrow>
           tuple_lt (projr (order_key A)) (projr (order_key B)) \<noteq> Inl TypeError"
    using sorted_py_Inr(3) [OF so] by (simp add: av_eq)
qed

lemma next_order_pick:
  assumes "next_order self = (Inr nxt, self')"
  shows "\<exists>pre post. orders self = pre @ nxt # post
      \<and> available (inventory self) nxt = Inr True
      \<and> (\<forall>B \<in> set pre. available (inventory self) B = Inr True \<longrightarrow>
            projr (order_key nxt) < projr (order_key B))
      \<and> (\<forall>B \<in> set post. available (inventory self) B = Inr True \<longrightarrow>
            projr (order_key nxt) \<le> projr (order_key B))"
proof -
  let ?P = "\<lambda>od. available (inventory self) od = Inr True"
  let ?f = "\<lambda>x. projr (order_key x)"
  from assms obtain av rest where
    av: "available_order (inventory self) (orders self) = Inr av" and
    so: "sorted_py av = Inr (nxt # rest)"
    unfolding next_order_Inr_iff by blast
  have av_eq: "av = filter ?P (orders self)"
    using available_order_Inr [OF av] by simp
  have srt: "nxt # rest = sort_key ?f av"
    using sorted_py_Inr(1) [OF so] .
  then have ne: "av \<noteq> []" by auto
  have hd: "hd (sort_key ?f av) = nxt"
    using srt by (metis list.sel(1))
  from hd_sort_key_split [OF ne, of ?f] obtain pre' post' where
    split: "av = pre' @ nxt # post'" and
    pre': "\<forall>y \<in> set pre'. ?f nxt < ?f y" and
    post': "\<forall>y \<in> set post'. ?f nxt \<le> ?f y"
    unfolding hd by blast
  from split have "filter ?P (orders self) = pre' @ nxt # post'"
    by (simp add: av_eq)
  from filter_eq_append_ConsD [OF this] obtain pre post where
    os: "orders self = pre @ nxt # post" and fpre: "filter ?P pre = pre'" and
    pn: "?P nxt" and fpost: "filter ?P post = post'"
    by blast
  have "\<forall>B \<in> set pre. ?P B \<longrightarrow> ?f nxt < ?f B"
    using pre' fpre by auto
  moreover have "\<forall>B \<in> set post. ?P B \<longrightarrow> ?f nxt \<le> ?f B"
    using post' fpost by auto
  ultimately show ?thesis
    using os pn by blast
qed

lemma next_order_InrI:
  assumes "available_order (inventory self) (orders self) = Inr av"
    and "sorted_py av = Inr (nxt # rest)"
    and "nxt ''item'' = Some it" and "inventory self it = Some s"
    and "nxt ''quantity'' = Some (PInt n)"
  shows "next_order self = (Inr nxt, self\<lparr>inventory := (inventory self)(it \<mapsto> s - n)\<rparr>)"
  using assms by (simp add: next_order_def getitem_def)

lemma sort_key_Cons_hd:
  "xs \<noteq> [] \<Longrightarrow> sort_key f xs = hd (sort_key f xs) # tl (sort_key f xs)"
proof -
  assume "xs \<noteq> []"
  then have "length (sort_key f xs) \<noteq> 0" by simp
  then have "sort_key f xs \<noteq> []" by (simp del: length_sort)
  then show ?thesis by simp
qed

lemma next_order_pickI:
  assumes wf1: "\<forall>od \<in> set (orders self). \<exists>b. available (inventory self) od = Inr b"
    and wf2: "\<forall>B \<in> set (orders self). available (inventory self) B = Inr True \<longrightarrow> (\<exists>k. order_key B = Inr k)"
    and wf3: "\<forall>A \<in> set (orders self). \<forall>B \<in> set (orders self).
           available (inventory self) A = Inr True \<longrightarrow> available (inventory self) B = Inr True \<longrightarrow>
           tuple_lt (projr (order_key A)) (projr (order_key B)) \<noteq> Inl TypeError"
    and os: "orders self = pre @ nxt # post"
    and pn: "available (inventory self) nxt = Inr True"
    and pre: "\<forall>B \<in> set pre. available (inventory self) B = Inr True \<longrightarrow>
            projr (order_key nxt) < projr (order_key B)"
    and post: "\<forall>B \<in> set post. available (inventory self) B = Inr True \<longrightarrow>
            projr (order_key nxt) \<le> projr (order_key B)"
    and it: "nxt ''item'' = Some it" and s: "inventory self it = Some s"
    and n: "nxt ''quantity'' = Some (PInt n)"
  shows "next_order self = (Inr nxt, self\<lparr>inventory := (inventory self)(it \<mapsto> s - n)\<rparr>)"
proof -
  define P where "P = (\<lambda>od. available (inventory self) od = Inr True)"
  define f where "f = (\<lambda>x. projr (order_key x))"
  define av where "av = filter P (orders self)"
  have av: "available_order (inventory self) (orders self) = Inr av"
    unfolding av_def P_def using wf1 by (rule available_order_total)
  have k: "\<forall>x \<in> set av. \<exists>k. order_key x = Inr k"
    using wf2 by (simp add: av_def P_def)
  have c: "\<forall>x \<in> set av. \<forall>y \<in> set av.
      tuple_lt (projr (order_key x)) (projr (order_key y)) \<noteq> Inl TypeError"
    using wf3 by (simp add: av_def P_def)
  have so: "sorted_py av = Inr (sort_key f av)"
    unfolding f_def using k c by (rule sorted_py_total)
  have av_split: "av = filter P pre @ nxt # filter P post"
    using os pn by (simp add: av_def P_def)
  have p1: "\<forall>y \<in> set (filter P pre). f nxt < f y"
    using pre by (simp add: P_def f_def)
  have p2: "\<forall>y \<in> set (filter P post). f nxt \<le> f y"
    using post by (simp add: P_def f_def)
  have hd: "hd (sort_key f av) = nxt"
    unfolding av_split using p1 p2 by (rule hd_sort_key_unsplit)
  have "av \<noteq> []"
    using av_split by simp
  from sort_key_Cons_hd [OF this, of f] have "sort_key f av = nxt # tl (sort_key f av)"
    unfolding hd .
  with so have "sorted_py av = Inr (nxt # tl (sort_key f av))" by simp
  from av this it s n show ?thesis
    by (rule next_order_InrI)
qed

lemma available_Inr_iff:
  "available ivt B = Inr b \<longleftrightarrow>
     (\<exists>i q. B ''item'' = Some i \<and> B ''quantity'' = Some (PInt q) \<and> b = (q \<le> get0 ivt i))"
proof (cases "B ''item''")
  case None
  then show ?thesis by (simp add: available_def getitem_def)
next
  case (Some i)
  show ?thesis
  proof (cases "B ''quantity''")
    case None
    with Some show ?thesis by (simp add: available_def getitem_def)
  next
    case (Some v)
    with \<open>B ''item'' = Some i\<close> show ?thesis
      by (cases v) (auto simp: available_def getitem_def)
  qed
qed

lemma available_mono:
  assumes "ivt it = Some s" "s1 \<le> s" "available (ivt(it \<mapsto> s1)) B = Inr True"
  shows "available ivt B = Inr True"
proof -
  from assms(3) obtain i q where i: "B ''item'' = Some i" and q: "B ''quantity'' = Some (PInt q)"
    and le: "q \<le> get0 (ivt(it \<mapsto> s1)) i"
    unfolding available_Inr_iff by auto
  have "get0 (ivt(it \<mapsto> s1)) i \<le> get0 ivt i"
    using assms(1,2) by (simp add: get0_def)
  with le i q show ?thesis
    unfolding available_Inr_iff by auto
qed

lemma available_defined:
  "available ivt B = Inr b \<Longrightarrow> \<exists>b'. available ivt' B = Inr b'"
  unfolding available_Inr_iff by auto

lemma repick:
  assumes win: "next_order self = (Inr nxt, self')"
    and it: "nxt ''item'' = Some it" and n: "nxt ''quantity'' = Some (PInt n)"
    and s: "inventory self it = Some s" and le: "n \<le> s1" "s1 \<le> s"
  shows "next_order (self\<lparr>inventory := (inventory self)(it \<mapsto> s1)\<rparr>)
           = (Inr nxt, self\<lparr>inventory := (inventory self)(it \<mapsto> s1 - n)\<rparr>)"
proof -
  define ivt1 where "ivt1 = (inventory self)(it \<mapsto> s1)"
  define self1 where "self1 = self\<lparr>inventory := ivt1\<rparr>"
  have inv1: "inventory self1 = ivt1" and os1: "orders self1 = orders self"
    by (simp_all add: self1_def)
  have mono: "available (inventory self) B = Inr True" if "available ivt1 B = Inr True" for B
    using s le(2) that unfolding ivt1_def by (rule available_mono)
  from next_order_pick [OF win] obtain pre post where
    os: "orders self = pre @ nxt # post" and
    pre: "\<forall>B \<in> set pre. available (inventory self) B = Inr True \<longrightarrow>
            projr (order_key nxt) < projr (order_key B)" and
    post: "\<forall>B \<in> set post. available (inventory self) B = Inr True \<longrightarrow>
            projr (order_key nxt) \<le> projr (order_key B)"
    by blast
  have "next_order self1 = (Inr nxt, self1\<lparr>inventory := (inventory self1)(it \<mapsto> s1 - n)\<rparr>)"
  proof (rule next_order_pickI [where pre = pre and post = post])
    show "\<forall>od \<in> set (orders self1). \<exists>b. available (inventory self1) od = Inr b"
      unfolding inv1 os1 using next_order_wf(1) [OF win] available_defined by blast
    show "\<forall>B \<in> set (orders self1). available (inventory self1) B = Inr True \<longrightarrow> (\<exists>k. order_key B = Inr k)"
      unfolding inv1 os1 using next_order_wf(2) [OF win] mono by blast
    show "\<forall>A \<in> set (orders self1). \<forall>B \<in> set (orders self1).
           available (inventory self1) A = Inr True \<longrightarrow> available (inventory self1) B = Inr True \<longrightarrow>
           tuple_lt (projr (order_key A)) (projr (order_key B)) \<noteq> Inl TypeError"
      unfolding inv1 os1 using next_order_wf(3) [OF win] mono by blast
    show "orders self1 = pre @ nxt # post"
      unfolding os1 by (rule os)
    have "available ivt1 nxt = Inr (n \<le> get0 ivt1 it)"
      unfolding available_Inr_iff using it n by blast
    moreover have "get0 ivt1 it = s1"
      by (simp add: ivt1_def get0_def)
    ultimately show "available (inventory self1) nxt = Inr True"
      unfolding inv1 using le(1) by simp
    show "\<forall>B \<in> set pre. available (inventory self1) B = Inr True \<longrightarrow>
            projr (order_key nxt) < projr (order_key B)"
      unfolding inv1 using pre mono by blast
    show "\<forall>B \<in> set post. available (inventory self1) B = Inr True \<longrightarrow>
            projr (order_key nxt) \<le> projr (order_key B)"
      unfolding inv1 using post mono by blast
    show "nxt ''item'' = Some it" by (rule it)
    show "inventory self1 it = Some s1"
      unfolding inv1 by (simp add: ivt1_def)
    show "nxt ''quantity'' = Some (PInt n)" by (rule n)
  qed
  then show ?thesis
    by (simp add: self1_def ivt1_def)
qed

section \<open>The example states, evaluated\<close>

lemma mk_order_fields:
  "mk_order i q c t ''item'' = Some (PStr i)"
  "mk_order i q c t ''quantity'' = Some (PInt q)"
  "mk_order i q c t ''category'' = Some (PStr c)"
  "mk_order i q c t ''timestamp'' = Some (PStr t)"
  by (simp_all add: mk_order_def)

lemma available_mk_order:
  "available ivt (mk_order i q c t) = Inr (q \<le> get0 ivt (PStr i))"
  by (simp add: available_def getitem_def mk_order_fields)

lemma order_key_mk_order:
  "order_key (mk_order i q c t) = Inr (get0 CATEGORY_PRIORITY (PStr c), PStr t)"
  by (simp add: order_key_def getitem_def mk_order_fields)


lemma scenario_next_order: "next_order scenario = (Inr perishable_late, scenario_picked)"
  by (simp add: scenario_def scenario_picked_def perishable_late_def non_perishable_early_def
      next_order_def sorted_py_def available_mk_order order_key_mk_order get0_def
      CATEGORY_PRIORITY_def tuple_lt_def getitem_def mk_order_fields)

lemma next_order_InrD:
  assumes "next_order self = (Inr nxt, self')"
  shows "\<exists>it q s. nxt ''item'' = Some it \<and> nxt ''quantity'' = Some (PInt q)
           \<and> inventory self it = Some s \<and> q \<le> s
           \<and> self' = self\<lparr>inventory := (inventory self)(it \<mapsto> s - q)\<rparr>"
proof -
  from assms obtain it s q where
    it: "nxt ''item'' = Some it" and s: "inventory self it = Some s" and
    q: "nxt ''quantity'' = Some (PInt q)" and
    self': "self' = self\<lparr>inventory := (inventory self)(it \<mapsto> s - q)\<rparr>"
    unfolding next_order_Inr_iff by blast
  from next_order_pick [OF assms] have "available (inventory self) nxt = Inr True"
    by blast
  with it q have "q \<le> get0 (inventory self) it"
    unfolding available_Inr_iff by auto
  with s have "q \<le> s"
    by (simp add: get0_def)
  with it s q self' show ?thesis
    by blast
qed

section \<open>next\_order: outcome, debit and stock\<close>

lemma next_order_IndexError:
  "available_order (inventory self) (orders self) = Inr [] \<Longrightarrow>
     next_order self = (Inl IndexError, self)"
  by (simp add: next_order_def sorted_py_def)

text \<open>
  C1. When no order of the backlog is eligible, \<open>next_order\<close> is claimed to return the
  "no eligible order" signal. It raises \<open>IndexError\<close> instead, on the empty backlog of a
  freshly started application as well as on the specification's own scenario (one bread in
  stock, two ordered); the state is left as it was.
\<close>

theorem next_order_nothing_eligible_raises:
  "next_order \<lparr>orders = [], inventory = initial_inventory\<rparr>
     = (Inl IndexError, \<lparr>orders = [], inventory = initial_inventory\<rparr>)
   \<and> next_order \<lparr>orders = [mk_order ''bread'' 2 ''perishable'' ''T1''],
                  inventory = [PStr ''bread'' \<mapsto> 1]\<rparr>
     = (Inl IndexError, \<lparr>orders = [mk_order ''bread'' 2 ''perishable'' ''T1''],
                          inventory = [PStr ''bread'' \<mapsto> 1]\<rparr>)"
  by (simp add: next_order_def sorted_py_def available_mk_order get0_def)

text \<open>
  C3. A call of \<open>next_order\<close> that returns an order takes exactly the order's quantity
  from the inventory entry of the order's item, leaves every other entry alone, and does not
  touch the backlog.
\<close>

theorem next_order_debits_exactly:
  assumes "next_order self = (Inr nxt, self')"
  shows "\<exists>it q s. nxt ''item'' = Some it \<and> nxt ''quantity'' = Some (PInt q)
           \<and> inventory self it = Some s \<and> inventory self' it = Some (s - q)
           \<and> (\<forall>k. k \<noteq> it \<longrightarrow> inventory self' k = inventory self k)
           \<and> orders self' = orders self"
proof -
  from next_order_InrD [OF assms] obtain it q s where
    "nxt ''item'' = Some it" "nxt ''quantity'' = Some (PInt q)" "inventory self it = Some s"
    "self' = self\<lparr>inventory := (inventory self)(it \<mapsto> s - q)\<rparr>"
    by blast
  then show ?thesis
    by (intro exI [of _ it] exI [of _ q] exI [of _ s]) simp
qed

theorem next_order_debits_exactly_witness:
  "next_order scenario = (Inr perishable_late, scenario_picked)
   \<and> (\<exists>it q s. perishable_late ''item'' = Some it \<and> perishable_late ''quantity'' = Some (PInt q)
           \<and> inventory scenario it = Some s \<and> inventory scenario_picked it = Some (s - q)
           \<and> (\<forall>k. k \<noteq> it \<longrightarrow> inventory scenario_picked k = inventory scenario k)
           \<and> orders scenario_picked = orders scenario)"
  using scenario_next_order next_order_debits_exactly [OF scenario_next_order]
  by (rule conjI)

lemma eligible_positive_has_entry:
  assumes "available ivt od = Inr True" and "od ''item'' = Some it"
    and "od ''quantity'' = Some (PInt q)" and "0 < q"
  shows "\<exists>s. ivt it = Some s \<and> q \<le> s"
proof -
  from assms(1-3) have "q \<le> get0 ivt it"
    unfolding available_Inr_iff by auto
  with assms(4) show ?thesis
    by (cases "ivt it") (simp_all add: get0_def)
qed

text \<open>
  C7. The order that \<open>next_order\<close> selects is claimed to have an inventory entry for its
  item, so that the debit cannot fail. An order for an item that is not stocked, with
  quantity 0, passes the eligibility filter (0 >= 0), is selected, and the debit raises
  \<open>KeyError\<close>.
\<close>

theorem next_order_debit_raises_key_error:
  "next_order \<lparr>orders = [mk_order ''pear'' 0 ''perishable'' ''T0''], inventory = initial_inventory\<rparr>
     = (Inl (KeyError (PStr ''pear'')),
        \<lparr>orders = [mk_order ''pear'' 0 ''perishable'' ''T0''], inventory = initial_inventory\<rparr>)
   \<and> available initial_inventory (mk_order ''pear'' 0 ''perishable'' ''T0'') = Inr True
   \<and> initial_inventory (PStr ''pear'') = None"
  by (simp add: next_order_def sorted_py_def available_mk_order order_key_mk_order get0_def
      initial_inventory_def tuple_lt_def getitem_def mk_order_fields)

text \<open>
  C8. If no inventory quantity is negative before a call of \<open>next_order\<close>, none is
  negative after it, whatever the outcome of the call: the selected order's quantity is at
  most the stock of its item, and a call that raises changes nothing.
\<close>

theorem next_order_keeps_stock_nonnegative:
  assumes "\<forall>k v. inventory self k = Some v \<longrightarrow> 0 \<le> v"
    and "next_order self = (r, self')"
  shows "(\<forall>k v. inventory self' k = Some v \<longrightarrow> 0 \<le> v)
       \<and> (\<forall>nxt. r = Inr nxt \<longrightarrow>
            (\<exists>it q s. nxt ''item'' = Some it \<and> nxt ''quantity'' = Some (PInt q)
               \<and> inventory self it = Some s \<and> q \<le> s))"
proof (cases r)
  case (Inl e)
  with assms(2) next_order_state [of self r self'] have "self' = self" by blast
  with assms(1) Inl show ?thesis by simp
next
  case (Inr nxt)
  with assms(2) have "next_order self = (Inr nxt, self')" by simp
  from next_order_InrD [OF this] obtain it q s where
    f: "nxt ''item'' = Some it" "nxt ''quantity'' = Some (PInt q)" "inventory self it = Some s"
    "q \<le> s" and self': "self' = self\<lparr>inventory := (inventory self)(it \<mapsto> s - q)\<rparr>"
    by blast
  have "\<forall>k v. inventory self' k = Some v \<longrightarrow> 0 \<le> v"
  proof (intro allI impI)
    fix k v assume kv: "inventory self' k = Some v"
    show "0 \<le> v"
    proof (cases "k = it")
      case True
      with kv have "v = s - q" by (simp add: self')
      with f(4) show ?thesis by simp
    next
      case False
      with kv have "inventory self k = Some v" by (simp add: self')
      with assms(1) show ?thesis by blast
    qed
  qed
  moreover have "\<exists>it q s. nxt ''item'' = Some it \<and> nxt ''quantity'' = Some (PInt q)
               \<and> inventory self it = Some s \<and> q \<le> s"
    using f by blast
  ultimately show ?thesis
    using Inr by simp
qed

theorem next_order_keeps_stock_nonnegative_witness:
  "next_order scenario = (Inr perishable_late, scenario_picked)
   \<and> (\<exists>v. inventory scenario_picked (PStr ''apple'') = Some v \<and> 0 \<le> v)"
proof -
  have h: "\<forall>k v. inventory scenario k = Some v \<longrightarrow> 0 \<le> v"
    by (simp add: scenario_def split: if_splits)
  from next_order_keeps_stock_nonnegative [OF h scenario_next_order]
  have "\<forall>k v. inventory scenario_picked k = Some v \<longrightarrow> 0 \<le> v" by (rule conjunct1)
  moreover have "inventory scenario_picked (PStr ''apple'') = Some 2"
    by (simp add: scenario_picked_def)
  ultimately have "\<exists>v. inventory scenario_picked (PStr ''apple'') = Some v \<and> 0 \<le> v"
    by blast
  with scenario_next_order show ?thesis by (rule conjI)
qed

section \<open>Properties of submit\_order\<close>

text \<open>
  C6. A candidate that lacks at least one of the four required keys is rejected with a
  \<open>ValueError\<close> whose message lists the missing keys, joined by commas, in the order item,
  quantity, category, timestamp; the state (backlog and inventory) is left as it was.
\<close>

theorem submit_order_missing_fields:
  assumes "order ''item'' = None \<or> order ''quantity'' = None
         \<or> order ''category'' = None \<or> order ''timestamp'' = None"
  shows "submit_order self order =
           (Inl (ValueError (''Missing field:'' @ join '',''
              (filter (\<lambda>f. f \<notin> dom order) [''item'', ''quantity'', ''category'', ''timestamp'']))),
            self)
       \<and> filter (\<lambda>f. f \<notin> dom order) [''item'', ''quantity'', ''category'', ''timestamp''] \<noteq> []"
proof -
  have eq: "filter (\<lambda>f. order f = None) required_field
      = filter (\<lambda>f. f \<notin> dom order) [''item'', ''quantity'', ''category'', ''timestamp'']"
    by (simp add: required_field_def dom_def)
  have "\<exists>f \<in> set required_field. order f = None"
    using assms by (auto simp: required_field_def)
  then have ne: "filter (\<lambda>f. order f = None) required_field \<noteq> []"
    by (simp add: filter_empty_conv)
  then have "submit_order self order =
      (Inl (ValueError (''Missing field:'' @ join '','' (filter (\<lambda>f. order f = None) required_field))), self)"
    by (simp add: submit_order_def Let_def)
  with ne show ?thesis
    unfolding eq by simp
qed

theorem submit_order_missing_fields_witness:
  "submit_order scenario [''item'' \<mapsto> PStr ''apple'', ''category'' \<mapsto> PStr ''perishable'']
     = (Inl (ValueError ''Missing field:quantity,timestamp''), scenario)"
  using submit_order_missing_fields
    [of "[''item'' \<mapsto> PStr ''apple'', ''category'' \<mapsto> PStr ''perishable'']" scenario]
  by (simp add: dom_def)

text \<open>
  C9. A candidate that has the four required keys is appended to the end of the backlog as
  it is, whatever else it holds and whatever the values are; nothing is returned, and the
  inventory and the earlier backlog entries are unchanged.
\<close>

theorem submit_order_appends:
  assumes "order ''item'' \<noteq> None" and "order ''quantity'' \<noteq> None"
    and "order ''category'' \<noteq> None" and "order ''timestamp'' \<noteq> None"
  shows "submit_order self order = (Inr (), self\<lparr>orders := orders self @ [order]\<rparr>)
       \<and> inventory (snd (submit_order self order)) = inventory self
       \<and> length (orders (snd (submit_order self order))) = Suc (length (orders self))
       \<and> last (orders (snd (submit_order self order))) = order
       \<and> butlast (orders (snd (submit_order self order))) = orders self"
proof -
  have "filter (\<lambda>f. order f = None) required_field = []"
    using assms by (simp add: required_field_def)
  then have "submit_order self order = (Inr (), self\<lparr>orders := orders self @ [order]\<rparr>)"
    by (simp add: submit_order_def)
  then show ?thesis by simp
qed

theorem submit_order_appends_witness:
  "submit_order scenario
      [''id'' \<mapsto> PStr ''ORD001'', ''item'' \<mapsto> PStr ''Milk'', ''quantity'' \<mapsto> PInt 1,
       ''category'' \<mapsto> PStr ''Perishable'', ''timestamp'' \<mapsto> PStr ''2024-01-01T00:00:00'']
     = (Inr (), scenario\<lparr>orders := orders scenario @
         [[''id'' \<mapsto> PStr ''ORD001'', ''item'' \<mapsto> PStr ''Milk'', ''quantity'' \<mapsto> PInt 1,
           ''category'' \<mapsto> PStr ''Perishable'', ''timestamp'' \<mapsto> PStr ''2024-01-01T00:00:00'']]\<rparr>)"
proof -
  let ?od = "[''id'' \<mapsto> PStr ''ORD001'', ''item'' \<mapsto> PStr ''Milk'', ''quantity'' \<mapsto> PInt 1,
       ''category'' \<mapsto> PStr ''Perishable'', ''timestamp'' \<mapsto> PStr ''2024-01-01T00:00:00'']"
  have "?od ''item'' \<noteq> None" "?od ''quantity'' \<noteq> None" "?od ''category'' \<noteq> None"
    "?od ''timestamp'' \<noteq> None"
    by simp_all
  from submit_order_appends [OF this, of scenario] show ?thesis
    by (rule conjunct1)
qed

section \<open>Eligibility\<close>

lemma spec_eligible_iff:
  "spec_eligible ivt od \<longleftrightarrow> available ivt od = Inr True"
proof (cases "od ''item''")
  case None
  then show ?thesis by (simp add: spec_eligible_def available_def getitem_def)
next
  case (Some it)
  note it = this
  show ?thesis
  proof (cases "od ''quantity''")
    case None
    with it show ?thesis by (simp add: spec_eligible_def available_def getitem_def)
  next
    case (Some v)
    with it show ?thesis
      by (cases v; cases "ivt it")
        (simp_all add: spec_eligible_def available_def getitem_def get0_def)
  qed
qed

text \<open>
  C4. The eligible subset that \<open>next_order\<close> computes is the backlog filtered by the
  specification's condition: the order's quantity is at most the inventory quantity of its
  item, where an item that is not a key of the inventory counts as 0 and is not an error,
  so that such an order is eligible exactly when its quantity is 0 or less. (The orders
  are records with an item and an integer quantity, as every order of the data model is.)
\<close>

theorem available_order_is_spec_filter:
  assumes "\<forall>od \<in> set os. od ''item'' \<noteq> None \<and> (\<exists>q. od ''quantity'' = Some (PInt q))"
  shows "available_order ivt os = Inr (filter (spec_eligible ivt) os)
       \<and> (\<forall>od \<in> set os. \<forall>it q. od ''item'' = Some it \<longrightarrow> od ''quantity'' = Some (PInt q) \<longrightarrow>
            available ivt od = Inr (q \<le> (case ivt it of None \<Rightarrow> 0 | Some s \<Rightarrow> s))
          \<and> (ivt it = None \<longrightarrow> spec_eligible ivt od = (q \<le> 0)))"
proof -
  have tot: "\<forall>od \<in> set os. \<exists>b. available ivt od = Inr b"
  proof
    fix od assume "od \<in> set os"
    with assms obtain it q where "od ''item'' = Some it" "od ''quantity'' = Some (PInt q)"
      by auto
    then show "\<exists>b. available ivt od = Inr b"
      unfolding available_Inr_iff by blast
  qed
  have "available_order ivt os = Inr (filter (\<lambda>od. available ivt od = Inr True) os)"
    using tot by (rule available_order_total)
  moreover have "filter (\<lambda>od. available ivt od = Inr True) os = filter (spec_eligible ivt) os"
    by (rule filter_cong) (simp_all add: spec_eligible_iff)
  ultimately have a: "available_order ivt os = Inr (filter (spec_eligible ivt) os)"
    by simp
  have b: "available ivt od = Inr (q \<le> (case ivt it of None \<Rightarrow> 0 | Some s \<Rightarrow> s))
          \<and> (ivt it = None \<longrightarrow> spec_eligible ivt od = (q \<le> 0))"
    if "od ''item'' = Some it" "od ''quantity'' = Some (PInt q)" for od it q
    using that by (simp add: available_def getitem_def get0_def spec_eligible_def)
  from a b show ?thesis by blast
qed

theorem available_order_is_spec_filter_witness:
  "available_order initial_inventory
      [mk_order ''apple'' 30 ''perishable'' ''T0'', mk_order ''pear'' 1 ''perishable'' ''T1'',
       mk_order ''Milk'' 5 ''non_perishable'' ''T2'', mk_order ''pear'' 0 ''perishable'' ''T3'']
     = Inr [mk_order ''Milk'' 5 ''non_perishable'' ''T2'', mk_order ''pear'' 0 ''perishable'' ''T3'']"
proof -
  let ?os = "[mk_order ''apple'' 30 ''perishable'' ''T0'', mk_order ''pear'' 1 ''perishable'' ''T1'',
       mk_order ''Milk'' 5 ''non_perishable'' ''T2'', mk_order ''pear'' 0 ''perishable'' ''T3'']"
  have h: "\<forall>od \<in> set ?os. od ''item'' \<noteq> None \<and> (\<exists>q. od ''quantity'' = Some (PInt q))"
    by (simp add: mk_order_fields)
  have "available_order initial_inventory ?os = Inr (filter (spec_eligible initial_inventory) ?os)"
    using available_order_is_spec_filter [OF h, of initial_inventory] by (rule conjunct1)
  then show ?thesis
    by (simp add: spec_eligible_def mk_order_fields initial_inventory_def)
qed

section \<open>Ranking\<close>

lemma py_lt_same: "py_lt x x = Inr False"
  by (cases x) simp_all

lemma tuple_lt_not_less:
  assumes "tuple_lt kB k \<noteq> Inl TypeError" and "k \<le> kB"
  shows "tuple_lt kB k = Inr False \<and> fst k \<le> fst kB
       \<and> (fst kB = fst k \<longrightarrow> py_lt (snd kB) (snd k) = Inr False)"
proof -
  from tuple_lt_cases [of kB k] assms have f: "tuple_lt kB k = Inr False"
    by auto
  have le: "fst k \<le> fst kB"
    using assms(2) by (cases k; cases kB) (auto simp: less_eq_prod_def)
  have "py_lt (snd kB) (snd k) = Inr False" if "fst kB = fst k"
  proof (cases "snd kB = snd k")
    case True
    then show ?thesis by (simp add: py_lt_same)
  next
    case False
    with f that show ?thesis by (simp add: tuple_lt_def)
  qed
  with f le show ?thesis by blast
qed

lemma next_order_chosen:
  assumes "next_order self = (Inr nxt, self')"
  shows "\<exists>pre post k. orders self = pre @ nxt # post
      \<and> available (inventory self) nxt = Inr True \<and> order_key nxt = Inr k
      \<and> (\<forall>B \<in> set pre. available (inventory self) B = Inr True \<longrightarrow>
            (\<exists>kB. order_key B = Inr kB \<and> k < kB \<and> tuple_lt kB k \<noteq> Inl TypeError))
      \<and> (\<forall>B \<in> set post. available (inventory self) B = Inr True \<longrightarrow>
            (\<exists>kB. order_key B = Inr kB \<and> k \<le> kB \<and> tuple_lt kB k \<noteq> Inl TypeError))"
proof -
  from next_order_pick [OF assms] obtain pre post where
    os: "orders self = pre @ nxt # post" and
    el: "available (inventory self) nxt = Inr True" and
    pre: "\<forall>B \<in> set pre. available (inventory self) B = Inr True \<longrightarrow>
            projr (order_key nxt) < projr (order_key B)" and
    post: "\<forall>B \<in> set post. available (inventory self) B = Inr True \<longrightarrow>
            projr (order_key nxt) \<le> projr (order_key B)"
    by blast
  note wf = next_order_wf [OF assms]
  have mem: "nxt \<in> set (orders self)" using os by simp
  from wf(2) mem el obtain k where k: "order_key nxt = Inr k" by blast
  have key: "\<exists>kB. order_key B = Inr kB \<and> projr (order_key B) = kB \<and> tuple_lt kB k \<noteq> Inl TypeError"
    if "B \<in> set (orders self)" "available (inventory self) B = Inr True" for B
  proof -
    from wf(2) that obtain kB where kB: "order_key B = Inr kB" by blast
    from wf(3) that mem el have "tuple_lt (projr (order_key B)) (projr (order_key nxt)) \<noteq> Inl TypeError"
      by blast
    with kB k show ?thesis by simp
  qed
  have "\<forall>B \<in> set pre. available (inventory self) B = Inr True \<longrightarrow>
            (\<exists>kB. order_key B = Inr kB \<and> k < kB \<and> tuple_lt kB k \<noteq> Inl TypeError)"
  proof (intro ballI impI)
    fix B assume B: "B \<in> set pre" "available (inventory self) B = Inr True"
    then have "B \<in> set (orders self)" using os by simp
    from key [OF this B(2)] obtain kB where
      "order_key B = Inr kB" "projr (order_key B) = kB" "tuple_lt kB k \<noteq> Inl TypeError" by blast
    moreover from pre B have "projr (order_key nxt) < projr (order_key B)" by blast
    ultimately show "\<exists>kB. order_key B = Inr kB \<and> k < kB \<and> tuple_lt kB k \<noteq> Inl TypeError"
      using k by simp
  qed
  moreover have "\<forall>B \<in> set post. available (inventory self) B = Inr True \<longrightarrow>
            (\<exists>kB. order_key B = Inr kB \<and> k \<le> kB \<and> tuple_lt kB k \<noteq> Inl TypeError)"
  proof (intro ballI impI)
    fix B assume B: "B \<in> set post" "available (inventory self) B = Inr True"
    then have "B \<in> set (orders self)" using os by simp
    from key [OF this B(2)] obtain kB where
      "order_key B = Inr kB" "projr (order_key B) = kB" "tuple_lt kB k \<noteq> Inl TypeError" by blast
    moreover from post B have "projr (order_key nxt) \<le> projr (order_key B)" by blast
    ultimately show "\<exists>kB. order_key B = Inr kB \<and> k \<le> kB \<and> tuple_lt kB k \<noteq> Inl TypeError"
      using k by simp
  qed
  ultimately show ?thesis
    using os el k by blast
qed

lemma next_order_least:
  assumes "next_order self = (Inr nxt, self')"
  shows "\<exists>k. order_key nxt = Inr k
      \<and> (\<forall>B \<in> set (orders self). available (inventory self) B = Inr True \<longrightarrow>
            (\<exists>kB. order_key B = Inr kB \<and> k \<le> kB \<and> tuple_lt kB k \<noteq> Inl TypeError))"
proof -
  from next_order_chosen [OF assms] obtain pre post k where
    os: "orders self = pre @ nxt # post" and
    el: "available (inventory self) nxt = Inr True" and k: "order_key nxt = Inr k" and
    pre: "\<forall>B \<in> set pre. available (inventory self) B = Inr True \<longrightarrow>
            (\<exists>kB. order_key B = Inr kB \<and> k < kB \<and> tuple_lt kB k \<noteq> Inl TypeError)" and
    post: "\<forall>B \<in> set post. available (inventory self) B = Inr True \<longrightarrow>
            (\<exists>kB. order_key B = Inr kB \<and> k \<le> kB \<and> tuple_lt kB k \<noteq> Inl TypeError)"
    by blast
  have "\<exists>kB. order_key B = Inr kB \<and> k \<le> kB \<and> tuple_lt kB k \<noteq> Inl TypeError"
    if B: "B \<in> set (orders self)" "available (inventory self) B = Inr True" for B
  proof -
    from B(1) os consider "B \<in> set pre" | "B = nxt" | "B \<in> set post" by auto
    then show ?thesis
    proof cases
      case 1
      with pre B(2) obtain kB where "order_key B = Inr kB" "k < kB" "tuple_lt kB k \<noteq> Inl TypeError"
        by blast
      then show ?thesis by (auto simp: less_imp_le)
    next
      case 2
      have "tuple_lt k k = Inr False" by (simp add: tuple_lt_def)
      with 2 k show ?thesis by simp
    next
      case 3
      with post B(2) show ?thesis by blast
    qed
  qed
  with k show ?thesis by blast
qed

lemma category_priority_table:
  "get0 CATEGORY_PRIORITY (PStr ''perishable'') = 0"
  "get0 CATEGORY_PRIORITY (PStr ''non_perishable'') = 1"
  "c \<noteq> PStr ''perishable'' \<Longrightarrow> c \<noteq> PStr ''non_perishable'' \<Longrightarrow> get0 CATEGORY_PRIORITY c = 0"
  by (simp_all add: get0_def CATEGORY_PRIORITY_def)

lemma order_key_fields:
  "od ''category'' = Some c \<Longrightarrow> od ''timestamp'' = Some t \<Longrightarrow>
     order_key od = Inr (get0 CATEGORY_PRIORITY c, t)"
  by (simp add: order_key_def getitem_def)

text \<open>
  Whatever a call returns is an eligible order of the backlog whose key is least among the
  eligible orders.
\<close>

lemma next_order_result_least_key:
  assumes "next_order self = (Inr nxt, self')"
  shows "nxt \<in> set (orders self) \<and> available (inventory self) nxt = Inr True
       \<and> (\<exists>k. order_key nxt = Inr k
            \<and> (\<forall>B \<in> set (orders self). available (inventory self) B = Inr True \<longrightarrow>
                  (\<exists>kB. order_key B = Inr kB \<and> tuple_lt kB k = Inr False \<and> fst k \<le> fst kB)))
       \<and> (\<forall>A \<in> set (orders self). \<forall>B kA kB.
             available (inventory self) A = Inr True \<longrightarrow> order_key A = Inr kA \<longrightarrow>
             order_key B = Inr kB \<longrightarrow> fst kA < fst kB \<longrightarrow> nxt \<noteq> B)
       \<and> (\<forall>od c t. od ''category'' = Some c \<longrightarrow> od ''timestamp'' = Some t \<longrightarrow>
             order_key od = Inr (get0 CATEGORY_PRIORITY c, t))
       \<and> get0 CATEGORY_PRIORITY (PStr ''perishable'') = 0
       \<and> get0 CATEGORY_PRIORITY (PStr ''non_perishable'') = 1
       \<and> (\<forall>c. c \<noteq> PStr ''perishable'' \<longrightarrow> c \<noteq> PStr ''non_perishable'' \<longrightarrow>
             get0 CATEGORY_PRIORITY c = 0)"
proof -
  from next_order_pick [OF assms] have mem: "nxt \<in> set (orders self)"
    and el: "available (inventory self) nxt = Inr True"
    by auto
  from next_order_least [OF assms] obtain k where k: "order_key nxt = Inr k" and
    least: "\<forall>B \<in> set (orders self). available (inventory self) B = Inr True \<longrightarrow>
            (\<exists>kB. order_key B = Inr kB \<and> k \<le> kB \<and> tuple_lt kB k \<noteq> Inl TypeError)"
    by blast
  have a: "\<forall>B \<in> set (orders self). available (inventory self) B = Inr True \<longrightarrow>
            (\<exists>kB. order_key B = Inr kB \<and> tuple_lt kB k = Inr False \<and> fst k \<le> fst kB)"
  proof (intro ballI impI)
    fix B assume "B \<in> set (orders self)" "available (inventory self) B = Inr True"
    with least obtain kB where kB: "order_key B = Inr kB" "k \<le> kB" "tuple_lt kB k \<noteq> Inl TypeError"
      by blast
    from tuple_lt_not_less [OF kB(3) kB(2)] kB(1)
    show "\<exists>kB. order_key B = Inr kB \<and> tuple_lt kB k = Inr False \<and> fst k \<le> fst kB"
      by blast
  qed
  have b: "\<forall>A \<in> set (orders self). \<forall>B kA kB.
             available (inventory self) A = Inr True \<longrightarrow> order_key A = Inr kA \<longrightarrow>
             order_key B = Inr kB \<longrightarrow> fst kA < fst kB \<longrightarrow> nxt \<noteq> B"
  proof (intro ballI allI impI)
    fix A B kA kB
    assume A: "A \<in> set (orders self)" "available (inventory self) A = Inr True"
      and keys: "order_key A = Inr kA" "order_key B = Inr kB" and lt: "fst kA < fst kB"
    from a A keys(1) have "fst k \<le> fst kA" by fastforce
    with lt have "k \<noteq> kB" by auto
    with k keys(2) show "nxt \<noteq> B" by auto
  qed
  from mem el k a b show ?thesis
    using category_priority_table order_key_fields by blast
qed




text \<open>
  C5. Among eligible orders of equal category priority, none has an earlier timestamp than
  the order \<open>next_order\<close> returns; and among eligible orders with the same priority and the
  same timestamp, the one returned stands first in the backlog.
\<close>

theorem next_order_stable:
  assumes "next_order self = (Inr nxt, self')"
  shows "\<exists>i k. i < length (orders self) \<and> orders self ! i = nxt \<and> order_key nxt = Inr k
      \<and> (\<forall>j < length (orders self). available (inventory self) (orders self ! j) = Inr True \<longrightarrow>
            (\<exists>kB. order_key (orders self ! j) = Inr kB
               \<and> (fst kB = fst k \<longrightarrow> py_lt (snd kB) (snd k) = Inr False)
               \<and> (kB = k \<longrightarrow> i \<le> j)))"
proof -
  from next_order_chosen [OF assms] obtain pre post k where
    os: "orders self = pre @ nxt # post" and k: "order_key nxt = Inr k" and
    pre: "\<forall>B \<in> set pre. available (inventory self) B = Inr True \<longrightarrow>
            (\<exists>kB. order_key B = Inr kB \<and> k < kB \<and> tuple_lt kB k \<noteq> Inl TypeError)" and
    post: "\<forall>B \<in> set post. available (inventory self) B = Inr True \<longrightarrow>
            (\<exists>kB. order_key B = Inr kB \<and> k \<le> kB \<and> tuple_lt kB k \<noteq> Inl TypeError)"
    by blast
  let ?i = "length pre"
  have i: "?i < length (orders self)" "orders self ! ?i = nxt"
    using os by simp_all
  have "\<exists>kB. order_key (orders self ! j) = Inr kB
               \<and> (fst kB = fst k \<longrightarrow> py_lt (snd kB) (snd k) = Inr False)
               \<and> (kB = k \<longrightarrow> ?i \<le> j)"
    if j: "j < length (orders self)" and el: "available (inventory self) (orders self ! j) = Inr True"
    for j
  proof (cases "j < ?i")
    case True
    then have "orders self ! j \<in> set pre"
      using os by (simp add: nth_append)
    with pre el obtain kB where kB: "order_key (orders self ! j) = Inr kB" "k < kB"
      "tuple_lt kB k \<noteq> Inl TypeError"
      by blast
    from kB(2) have "k \<le> kB" "kB \<noteq> k" by auto
    from tuple_lt_not_less [OF kB(3) this(1)] kB(1) this(2) show ?thesis
      by blast
  next
    case False
    show ?thesis
    proof (cases "j = ?i")
      case True
      with i k have "order_key (orders self ! j) = Inr k" by simp
      then show ?thesis
        using True by (simp add: py_lt_same)
    next
      case False
      with \<open>\<not> j < ?i\<close> have gt: "?i < j" by simp
      then have "orders self ! j = post ! (j - Suc ?i)"
        using os by (simp add: nth_append nth_Cons')
      moreover have "j - Suc ?i < length post"
        using j gt os by simp
      ultimately have "orders self ! j \<in> set post"
        by simp
      with post el obtain kB where kB: "order_key (orders self ! j) = Inr kB" "k \<le> kB"
        "tuple_lt kB k \<noteq> Inl TypeError"
        by blast
      from tuple_lt_not_less [OF kB(3) kB(2)] kB(1) gt show ?thesis
        by auto
    qed
  qed
  with i k show ?thesis by blast
qed

lemma ties_next_order: "next_order ties = (Inr tie_first, ties_picked)"
  by (simp add: ties_def ties_picked_def late_order_def tie_first_def tie_second_def
      initial_inventory_def
      next_order_def sorted_py_def available_mk_order order_key_mk_order get0_def
      CATEGORY_PRIORITY_def tuple_lt_def getitem_def mk_order_fields)

theorem next_order_stable_witness:
  "next_order ties = (Inr tie_first, ties_picked)
   \<and> (\<exists>i k kB. orders ties ! i = tie_first \<and> order_key tie_first = Inr k
         \<and> order_key tie_second = Inr kB \<and> kB = k \<and> i \<le> 2)"
proof -
  have el: "available (inventory ties) (orders ties ! 2) = Inr True"
    by (simp add: ties_def tie_second_def available_mk_order get0_def initial_inventory_def)
  have j: "2 < length (orders ties)" and j2: "orders ties ! 2 = tie_second"
    by (simp_all add: ties_def)
  have same: "order_key tie_second = order_key tie_first"
    by (simp add: tie_first_def tie_second_def order_key_mk_order)
  from next_order_stable [OF ties_next_order] obtain i k where
    i: "orders ties ! i = tie_first" and k: "order_key tie_first = Inr k" and
    all: "\<forall>j < length (orders ties). available (inventory ties) (orders ties ! j) = Inr True \<longrightarrow>
            (\<exists>kB. order_key (orders ties ! j) = Inr kB
               \<and> (fst kB = fst k \<longrightarrow> py_lt (snd kB) (snd k) = Inr False)
               \<and> (kB = k \<longrightarrow> i \<le> j))"
    by (elim exE conjE)
  from all [rule_format, OF j el] obtain kB where
    kB: "order_key (orders ties ! 2) = Inr kB" "kB = k \<longrightarrow> i \<le> 2"
    by (elim exE conjE)
  from kB(1) have "order_key tie_second = Inr kB" by (simp only: j2)
  moreover from this same k have "kB = k" by simp
  moreover from this kB(2) have "i \<le> 2" by simp
  ultimately have "\<exists>i k kB. orders ties ! i = tie_first \<and> order_key tie_first = Inr k
         \<and> order_key tie_second = Inr kB \<and> kB = k \<and> i \<le> 2"
    using i k by (intro exI conjI)
  with ties_next_order show ?thesis by (rule conjI)
qed

section \<open>Repeated picks\<close>

lemma next_orders_repeat:
  assumes win: "next_order self = (Inr nxt, self')"
    and it: "nxt ''item'' = Some it" and q: "nxt ''quantity'' = Some (PInt q)"
    and s: "inventory self it = Some s" and q0: "0 \<le> q"
  shows "int n * q \<le> s1 \<Longrightarrow> s1 \<le> s \<Longrightarrow>
     next_orders n (self\<lparr>inventory := (inventory self)(it \<mapsto> s1)\<rparr>)
       = (replicate n (Inr nxt), self\<lparr>inventory := (inventory self)(it \<mapsto> s1 - int n * q)\<rparr>)"
proof (induction n arbitrary: s1)
  case 0
  show ?case by simp
next
  case (Suc n)
  have nq: "0 \<le> int n * q"
    using q0 by simp
  from Suc.prems(1) have tot: "q + int n * q \<le> s1"
    by (simp add: algebra_simps)
  with nq have le: "q \<le> s1" by linarith
  have step: "next_order (self\<lparr>inventory := (inventory self)(it \<mapsto> s1)\<rparr>)
           = (Inr nxt, self\<lparr>inventory := (inventory self)(it \<mapsto> s1 - q)\<rparr>)"
    using win it q s le Suc.prems(2) by (rule repick)
  have "int n * q \<le> s1 - q" using tot by linarith
  moreover have "s1 - q \<le> s" using Suc.prems(2) q0 by linarith
  ultimately have rest: "next_orders n (self\<lparr>inventory := (inventory self)(it \<mapsto> s1 - q)\<rparr>)
       = (replicate n (Inr nxt), self\<lparr>inventory := (inventory self)(it \<mapsto> s1 - q - int n * q)\<rparr>)"
    by (rule Suc.IH)
  have eq: "s1 - q - int n * q = s1 - int (Suc n) * q"
    by (simp add: algebra_simps)
  have "next_orders (Suc n) (self\<lparr>inventory := (inventory self)(it \<mapsto> s1)\<rparr>)
      = (case next_order (self\<lparr>inventory := (inventory self)(it \<mapsto> s1)\<rparr>) of (r, self1) \<Rightarrow>
          (case next_orders n self1 of (rs, self2) \<Rightarrow> (r # rs, self2)))"
    by (rule next_orders.simps(2))
  also have "\<dots> = (Inr nxt # replicate n (Inr nxt),
       self\<lparr>inventory := (inventory self)(it \<mapsto> s1 - q - int n * q)\<rparr>)"
    by (simp only: step rest prod.case)
  finally show ?case
    by (simp only: eq replicate_Suc)
qed

text \<open>
  C10. A picked order stays in the backlog, so it can be picked again without any
  replenishment. As the claim states it, for every order, this fails: an order with a
  negative quantity adds to the stock when it is picked, which can make a more urgent
  order eligible, and the next call then returns that order. For an order whose quantity
  is not negative it holds: if the order wins a call and the stock of its item covers
  \<open>n\<close> times its quantity, then \<open>n\<close> consecutive calls all return it, and leave the stock
  of its item lower by \<open>n\<close> times the quantity and everything else as it was.
\<close>

theorem next_order_repeat_pick:
  assumes "next_order self = (Inr nxt, self')"
    and "nxt ''item'' = Some it" and "nxt ''quantity'' = Some (PInt q)"
    and "inventory self it = Some s" and "0 \<le> q" and "int n * q \<le> s"
  shows "next_orders n self
       = (replicate n (Inr nxt), self\<lparr>inventory := (inventory self)(it \<mapsto> s - int n * q)\<rparr>)"
proof -
  have "(inventory self)(it \<mapsto> s) = inventory self"
    using assms(4) by (rule map_upd_triv)
  then have "self\<lparr>inventory := (inventory self)(it \<mapsto> s)\<rparr> = self"
    by simp
  with next_orders_repeat [OF assms(1-5), of n s] assms(6) show ?thesis
    by simp
qed

lemma stocked_next_order:
  "next_order stocked = (Inr perishable_late, stocked\<lparr>inventory := initial_inventory(PStr ''apple'' \<mapsto> 26)\<rparr>)"
  by (simp add: stocked_def perishable_late_def non_perishable_early_def initial_inventory_def
      next_order_def sorted_py_def available_mk_order order_key_mk_order get0_def
      CATEGORY_PRIORITY_def tuple_lt_def getitem_def mk_order_fields)

theorem next_order_repeat_pick_witness:
  "next_orders 3 stocked
     = ([Inr perishable_late, Inr perishable_late, Inr perishable_late],
        stocked\<lparr>inventory := initial_inventory(PStr ''apple'' \<mapsto> 20)\<rparr>)"
proof -
  have it: "perishable_late ''item'' = Some (PStr ''apple'')"
    and q: "perishable_late ''quantity'' = Some (PInt 3)"
    by (simp_all add: perishable_late_def mk_order_fields)
  have s: "inventory stocked (PStr ''apple'') = Some 29"
    by (simp add: stocked_def initial_inventory_def)
  have "next_orders 3 stocked
     = (replicate 3 (Inr perishable_late),
        stocked\<lparr>inventory := (inventory stocked)(PStr ''apple'' \<mapsto> 29 - int 3 * 3)\<rparr>)"
    using stocked_next_order it q s by (rule next_order_repeat_pick) simp_all
  then show ?thesis
    by (simp add: stocked_def numeral_3_eq_3)
qed

theorem next_order_repeat_pick_counterexample:
  "next_order restock = (Inr restock_order, restock\<lparr>inventory := [PStr ''apple'' \<mapsto> 5]\<rparr>)
   \<and> restock_order ''quantity'' = Some (PInt (- 5)) \<and> (- 5 :: int) \<le> 5
   \<and> next_order (restock\<lparr>inventory := [PStr ''apple'' \<mapsto> 5]\<rparr>)
        = (Inr waiting_order, restock\<lparr>inventory := [PStr ''apple'' \<mapsto> 2]\<rparr>)
   \<and> waiting_order ''quantity'' \<noteq> restock_order ''quantity''"
  by (simp add: restock_def restock_order_def waiting_order_def
      next_order_def sorted_py_def available_mk_order order_key_mk_order get0_def
      CATEGORY_PRIORITY_def tuple_lt_def getitem_def mk_order_fields)

end
